theory Spec2Isabelle
  imports Main
begin

section \<open>Text primitives of the bot\<close>

text \<open>
  The bot (\<^verbatim>\<open>bot.py\<close>) works on Python strings. A text is modelled as a \<^typ>\<open>string\<close>,
  that is a list of characters with code points below 256. The Python built-ins the bot
  calls (\<^verbatim>\<open>str.strip\<close>, \<^verbatim>\<open>str.startswith\<close>, \<^verbatim>\<open>str.endswith\<close>, \<^verbatim>\<open>str.split\<close>,
  \<^verbatim>\<open>str.rsplit\<close>, \<^verbatim>\<open>str.splitlines\<close>) are written out on that type.
\<close>

definition is_space :: "char \<Rightarrow> bool" where
  \<comment> \<open>the code points below 256 that \<^verbatim>\<open>str.strip()\<close> removes: U+0009..U+000D,
      U+001C..U+0020, U+0085 and U+00A0\<close>
  "is_space c =
     (let n = (of_char c :: nat)
      in (9 \<le> n \<and> n \<le> 13) \<or> (28 \<le> n \<and> n \<le> 32) \<or> n = 133 \<or> n = 160)"

definition strip :: "string \<Rightarrow> string" where
  "strip s = rev (dropWhile is_space (rev (dropWhile is_space s)))"

definition startswith :: "string \<Rightarrow> string \<Rightarrow> bool" where
  "startswith s p = (take (length p) s = p)"

definition endswith :: "string \<Rightarrow> string \<Rightarrow> bool" where
  "endswith s p = (length p \<le> length s \<and> drop (length s - length p) s = p)"

definition split1 :: "char \<Rightarrow> string \<Rightarrow> string list" where
  \<comment> \<open>\<^verbatim>\<open>s.split(c, 1)\<close>: at most one cut, at the first occurrence of the separator\<close>
  "split1 c s =
     (if c \<in> set s
      then [takeWhile (\<lambda>x. x \<noteq> c) s, tl (dropWhile (\<lambda>x. x \<noteq> c) s)]
      else [s])"

definition rsplit1 :: "char \<Rightarrow> string \<Rightarrow> string list" where
  \<comment> \<open>\<^verbatim>\<open>s.rsplit(c, 1)\<close>: at most one cut, at the last occurrence of the separator\<close>
  "rsplit1 c s =
     (if c \<in> set s
      then [rev (tl (dropWhile (\<lambda>x. x \<noteq> c) (rev s))), rev (takeWhile (\<lambda>x. x \<noteq> c) (rev s))]
      else [s])"

definition is_linebreak :: "char \<Rightarrow> bool" where
  \<comment> \<open>the line boundaries of \<^verbatim>\<open>str.splitlines()\<close> below 256: LF, VT, FF, CR, FS, GS, RS
      and NEL\<close>
  "is_linebreak c =
     (let n = (of_char c :: nat)
      in (10 \<le> n \<and> n \<le> 13) \<or> (28 \<le> n \<and> n \<le> 30) \<or> n = 133)"

fun splitlines_from :: "string \<Rightarrow> string \<Rightarrow> string list" where
  \<comment> \<open>the first argument is the line read so far, reversed\<close>
  "splitlines_from cur [] = (if cur = [] then [] else [rev cur])"
| "splitlines_from cur [c] =
     (if is_linebreak c then [rev cur] else [rev (c # cur)])"
| "splitlines_from cur (c # d # s) =
     (if c = CHR 0x0D \<and> d = CHR 0x0A then rev cur # splitlines_from [] s
      else if is_linebreak c then rev cur # splitlines_from [] (d # s)
      else splitlines_from (c # cur) (d # s))"

definition splitlines :: "string \<Rightarrow> string list" where
  "splitlines s = splitlines_from [] s"

section \<open>Job parser\<close>

definition illegal_chars :: "char list" where
  \<comment> \<open>the character class of \<^verbatim>\<open>clean_filename\<close>: backslash, slash, star, question mark,
      colon, double quote, angle brackets and the bar\<close>
  "illegal_chars =
     [CHR 0x5C, CHR ''/'', CHR ''*'', CHR ''?'', CHR '':'', CHR 0x22, CHR ''<'', CHR ''>'', CHR ''|'']"

definition clean_filename :: "string \<Rightarrow> string" where
  "clean_filename name = strip (filter (\<lambda>c. c \<notin> set illegal_chars) name)"

definition parse_message_text :: "string \<Rightarrow> string option \<times> string option" where
  "parse_message_text text =
     (if CHR ''|'' \<in> set text then
        (let parts = split1 (CHR ''|'') text;
             name = clean_filename (parts ! 0);
             link = strip (parts ! 1)
         in if startswith link ''http'' \<and> endswith link ''.m3u8''
            then (Some link, Some (name @ ''.mp4''))
            else (None, None))
      else
        (let link = strip text
         in if startswith link ''http'' \<and> endswith link ''.m3u8''
            then (Some link, None)
            else (None, None)))"

section \<open>One download attempt\<close>

definition base_url :: "string \<Rightarrow> string" where
  \<comment> \<open>\<^verbatim>\<open>m3u8_url.rsplit("/", 1)[0] + "/"\<close>; the list is never empty\<close>
  "base_url m3u8_url = (rsplit1 (CHR ''/'') m3u8_url ! 0) @ ''/''"

fun chunk_loop :: "string \<Rightarrow> string list \<Rightarrow> string list \<Rightarrow> string list" where
  \<comment> \<open>the \<^verbatim>\<open>for line in m3u8_content.splitlines()\<close> loop; the second argument is
      \<^verbatim>\<open>chunk_urls\<close> so far\<close>
  "chunk_loop base acc [] = acc"
| "chunk_loop base acc (raw # rest) =
     (let line = strip raw
      in if line = [] \<or> startswith line ''#'' then chunk_loop base acc rest
         else if startswith line ''http'' then chunk_loop base (acc @ [line]) rest
         else chunk_loop base (acc @ [base @ line]) rest)"

definition chunk_urls :: "string \<Rightarrow> string \<Rightarrow> string list" where
  "chunk_urls m3u8_url m3u8_content = chunk_loop (base_url m3u8_url) [] (splitlines m3u8_content)"

datatype tool = Aria2c | Cat | Ffmpeg

datatype error = RequestFailed | WriteFailed string | NoChunks | CommandFailed tool | CopyFailed

text \<open>
  Everything outside the process that one call of \<^verbatim>\<open>download_and_merge\<close> meets: the
  HTTP fetch of the playlist (a failed request or a non-2xx status is \<open>Inl\<close>), whether a
  file of the working directory can be written, what each external command does to the
  working directory and whether it exits with status 0, whether the result can be copied
  to its destination, and whether a path of the working directory can be removed.
  The working directory is the set of the names that exist in it.
\<close>

record world =
  http_get :: "string \<Rightarrow> error + string"
  can_write :: "string \<Rightarrow> bool"
  run_tool :: "tool \<Rightarrow> string set \<Rightarrow> bool \<times> string set"
  copy_out :: "string \<Rightarrow> bool"
  can_remove :: "string \<Rightarrow> bool"

definition attempt_body ::
  "world \<Rightarrow> string \<Rightarrow> string \<Rightarrow> string set \<Rightarrow> (error + unit) \<times> tool list \<times> string set" where
  \<comment> \<open>the \<^verbatim>\<open>try\<close> block: its outcome, the external commands it ran, and the working
      directory it leaves; every step that can raise is a branch, and a file that cannot
      be opened for writing is not created\<close>
  "attempt_body w m3u8_url out_path fs =
     (case http_get w m3u8_url of
        Inl e \<Rightarrow> (Inl e, [], fs)
      | Inr m3u8_content \<Rightarrow>
          if \<not> can_write w ''playlist.m3u8'' then (Inl (WriteFailed ''playlist.m3u8''), [], fs)
          else
            let fs1 = insert ''playlist.m3u8'' fs;
                urls = chunk_urls m3u8_url m3u8_content
            in if urls = [] then (Inl NoChunks, [], fs1)
               else if \<not> can_write w ''chunks.txt'' then (Inl (WriteFailed ''chunks.txt''), [], fs1)
               else
                 let fs2 = insert ''chunks.txt'' fs1;
                     (ok_aria, fs3) = run_tool w Aria2c fs2
                 in if \<not> ok_aria then (Inl (CommandFailed Aria2c), [Aria2c], fs3)
                    else
                      let (ok_cat, fs4) = run_tool w Cat fs3
                      in if \<not> ok_cat then (Inl (CommandFailed Cat), [Aria2c, Cat], fs4)
                         else
                           let (ok_ff, fs5) = run_tool w Ffmpeg fs4
                           in if \<not> ok_ff
                              then (Inl (CommandFailed Ffmpeg), [Aria2c, Cat, Ffmpeg], fs5)
                              else if \<not> copy_out w out_path
                              then (Inl CopyFailed, [Aria2c, Cat, Ffmpeg], fs5)
                              else (Inr (), [Aria2c, Cat, Ffmpeg], fs5))"

fun remove_each :: "(string \<Rightarrow> bool) \<Rightarrow> string list \<Rightarrow> string set \<Rightarrow> string set" where
  \<comment> \<open>the \<^verbatim>\<open>for f in [...]\<close> loop of the \<^verbatim>\<open>finally\<close> block; a removal that raises ends
      the loop, since the exception is caught outside it\<close>
  "remove_each rm [] fs = fs"
| "remove_each rm (f # rest) fs =
     (if f \<in> fs
      then (if rm f then remove_each rm rest (fs - {f}) else fs)
      else remove_each rm rest fs)"

definition scratch_files :: "string list" where
  "scratch_files = [''temp.ts'', ''playlist.m3u8'', ''chunks.txt'', ''output.mp4'']"

definition cleanup :: "world \<Rightarrow> string set \<Rightarrow> string set" where
  \<comment> \<open>the \<^verbatim>\<open>finally\<close> block: \<^verbatim>\<open>try: ... except Exception: pass\<close>\<close>
  "cleanup w fs =
     (if ''chunks'' \<in> fs
      then (if can_remove w ''chunks''
            then remove_each (can_remove w) scratch_files (fs - {''chunks''})
            else fs)
      else remove_each (can_remove w) scratch_files fs)"

definition download_and_merge ::
  "world \<Rightarrow> string \<Rightarrow> string \<Rightarrow> string set \<Rightarrow> bool \<times> tool list \<times> string set" where
  \<comment> \<open>the returned flag, the external commands run, and the working directory afterwards\<close>
  "download_and_merge w m3u8_url out_path fs =
     (let (r, tools, fs1) = attempt_body w m3u8_url out_path fs
      in (case r of Inl _ \<Rightarrow> False | Inr _ \<Rightarrow> True, tools, cleanup w fs1))"

section \<open>Retries, queue and cursor\<close>

definition MAX_RETRIES :: nat where
  "MAX_RETRIES = 3"

definition POLL_INTERVAL :: nat where
  "POLL_INTERVAL = 5"

definition DRIVE_FOLDER :: string where
  "DRIVE_FOLDER = ''/content/drive/MyDrive/M3U8''"

datatype notification =
    BotActive
  | LinkAdded string nat nat
  | Starting string nat
  | AttemptStarted nat nat
  | Complete string nat
  | AttemptFailed nat string
  | AllFailed string nat

text \<open>
  What the process does that can be observed from outside, in order: a message sent to
  the chat, a call of \<^verbatim>\<open>download_and_merge\<close> (with the attempt number), an external
  command run inside that call, and a \<^verbatim>\<open>time.sleep\<close>.
\<close>

datatype event = Notify notification | Download nat | Run tool | Sleep nat

fun attempts ::
  "(nat \<Rightarrow> world) \<Rightarrow> string \<Rightarrow> string \<Rightarrow> string \<Rightarrow> nat \<Rightarrow> nat list \<Rightarrow> string set
     \<Rightarrow> bool \<times> event list \<times> string set" where
  \<comment> \<open>the \<^verbatim>\<open>for attempt in range(1, MAX_RETRIES + 1)\<close> loop over the attempt numbers left;
      the flag is \<^verbatim>\<open>success\<close>. Attempt \<open>a\<close> meets the world \<open>ws a\<close>.\<close>
  "attempts ws m3u8_url dest_path filename remaining [] fs = (False, [], fs)"
| "attempts ws m3u8_url dest_path filename remaining (attempt # later) fs =
     (let (ok, tools, fs1) = download_and_merge (ws attempt) m3u8_url dest_path fs;
          called = [Notify (AttemptStarted attempt MAX_RETRIES), Download attempt] @ map Run tools
      in if ok then (True, called @ [Notify (Complete filename remaining)], fs1)
         else
           let (success, es, fs2) = attempts ws m3u8_url dest_path filename remaining later fs1
           in (success, called @ [Notify (AttemptFailed attempt m3u8_url), Sleep 5] @ es, fs2))"

definition job_filename :: "string \<Rightarrow> string option \<Rightarrow> string" where
  \<comment> \<open>\<^verbatim>\<open>if custom_filename: ... else: ...\<close>; \<open>now\<close> is the clock reading formatted by
      \<^verbatim>\<open>strftime('%Y%m%d_%H%M%S')\<close>\<close>
  "job_filename now custom_filename =
     (case custom_filename of
        None \<Rightarrow> ''video_'' @ now @ ''.mp4''
      | Some f \<Rightarrow> if f \<noteq> [] then f else ''video_'' @ now @ ''.mp4'')"

definition process_job ::
  "(nat \<Rightarrow> world) \<Rightarrow> string \<Rightarrow> string \<times> string option \<Rightarrow> nat \<Rightarrow> string set
     \<Rightarrow> event list \<times> string set" where
  \<comment> \<open>the body of \<^verbatim>\<open>if queue:\<close> after the pop; \<open>remaining\<close> is the length of the queue
      after the pop. No file name starts with a slash, so \<^verbatim>\<open>os.path.join\<close> puts one
      slash between the folder and the name.\<close>
  "process_job ws now job remaining fs =
     (let (m3u8_url, custom_filename) = job;
          filename = job_filename now custom_filename;
          dest_path = DRIVE_FOLDER @ ''/'' @ filename;
          (success, es, fs1) =
             attempts ws m3u8_url dest_path filename remaining [1..<MAX_RETRIES + 1] fs
      in ([Notify (Starting m3u8_url remaining)] @ es
            @ (if \<not> success then [Notify (AllFailed m3u8_url remaining)] else []),
          fs1))"

text \<open>
  One record of \<^verbatim>\<open>getUpdates\<close>: its identifier, which the feed always gives as an
  integer, and the text of its message when it has a message with a text.
\<close>

record update =
  update_id :: int
  message_text :: "string option"

type_synonym job = "string \<times> string option"

definition handle_update ::
  "int option \<times> job list \<times> event list \<Rightarrow> update \<Rightarrow> int option \<times> job list \<times> event list" where
  \<comment> \<open>one round of \<^verbatim>\<open>for msg in updates.get("result", [])\<close> on the cursor, the queue and
      the events so far\<close>
  "handle_update st msg =
     (let (last_update_id, queue, es) = st
      in if last_update_id = None \<or> update_id msg > the last_update_id then
           (case message_text msg of
              None \<Rightarrow> (Some (update_id msg), queue, es)
            | Some text \<Rightarrow>
                (case parse_message_text text of
                   (Some link, fname) \<Rightarrow>
                     if link \<noteq> [] then
                       (let queue1 = queue @ [(link, fname)];
                            pos = length queue1
                        in (Some (update_id msg), queue1,
                            es @ [Notify (LinkAdded link pos (length queue1))]))
                     else (Some (update_id msg), queue, es)
                 | (None, fname) \<Rightarrow> (Some (update_id msg), queue, es)))
         else st)"

definition process_batch ::
  "int option \<Rightarrow> job list \<Rightarrow> update list \<Rightarrow> int option \<times> job list \<times> event list" where
  "process_batch last_update_id queue msgs = foldl handle_update (last_update_id, queue, []) msgs"

definition startup_cursor :: "error + update list \<Rightarrow> int option" where
  \<comment> \<open>the \<^verbatim>\<open>try\<close> block before the loop; \<open>Inl\<close> is a \<^verbatim>\<open>get_updates\<close> that raised\<close>
  "startup_cursor polled =
     (case polled of
        Inl e \<Rightarrow> None
      | Inr result \<Rightarrow> if result \<noteq> [] then Some (update_id (last result)) else None)"

record bot =
  cursor :: "int option"
  pending :: "job list"
  workdir :: "string set"

definition loop_iteration ::
  "error + update list \<Rightarrow> (nat \<Rightarrow> world) \<Rightarrow> string \<Rightarrow> bot \<Rightarrow> bot \<times> event list" where
  \<comment> \<open>one round of \<^verbatim>\<open>while True\<close>: the poll, at most one job, the pause\<close>
  "loop_iteration polled ws now b =
     (let (c, q, es) =
            (case polled of
               Inl e \<Rightarrow> (cursor b, pending b, [])
             | Inr result \<Rightarrow> process_batch (cursor b) (pending b) result)
      in case q of
           [] \<Rightarrow> (\<lparr>cursor = c, pending = q, workdir = workdir b\<rparr>, es @ [Sleep POLL_INTERVAL])
         | job # rest \<Rightarrow>
             (let (es1, fs1) = process_job ws now job (length rest) (workdir b)
              in (\<lparr>cursor = c, pending = rest, workdir = fs1\<rparr>, es @ es1 @ [Sleep POLL_INTERVAL])))"

section \<open>The specification's wording\<close>

text \<open>
  Three sentences of the specification are compared with the code as they are worded.
  Each gets a definition of its own here, written from the sentence and not from the
  code.
\<close>

definition spec_candidate_link :: "string \<Rightarrow> string" where
  \<comment> \<open>``the part after the first separator when a bar is present, otherwise the whole
      trimmed text''\<close>
  "spec_candidate_link text =
     (if CHR ''|'' \<in> set text then split1 (CHR ''|'') text ! 1 else strip text)"

definition spec_sanitize :: "string \<Rightarrow> string" where
  \<comment> \<open>``removes every occurrence of every character in that set and does nothing else''\<close>
  "spec_sanitize label = filter (\<lambda>c. c \<notin> set illegal_chars) label"












section \<open>Reading a trace\<close>

text \<open>
  The claims about retries count and order events. These functions read them off a
  trace: the attempt numbers of the calls of the downloader, the lengths of the pauses,
  and the success notifications.
\<close>

primrec downloads :: "event list \<Rightarrow> nat list" where
  "downloads [] = []"
| "downloads (e # es) = (case e of Download a \<Rightarrow> a # downloads es | _ \<Rightarrow> downloads es)"

primrec sleeps :: "event list \<Rightarrow> nat list" where
  "sleeps [] = []"
| "sleeps (e # es) = (case e of Sleep n \<Rightarrow> n # sleeps es | _ \<Rightarrow> sleeps es)"

primrec completions :: "event list \<Rightarrow> notification list" where
  "completions [] = []"
| "completions (e # es) =
     (case e of Notify (Complete f r) \<Rightarrow> Complete f r # completions es | _ \<Rightarrow> completions es)"

primrec failed_attempts :: "event list \<Rightarrow> nat list" where
  "failed_attempts [] = []"
| "failed_attempts (e # es) =
     (case e of Notify (AttemptFailed a u) \<Rightarrow> a # failed_attempts es | _ \<Rightarrow> failed_attempts es)"

fun paced :: "event list \<Rightarrow> bool" where
  \<comment> \<open>every failure notification is followed at once by a pause of 5, every pause follows
      a failure notification at once, and no pause comes after a success notification\<close>
  "paced [] = True"
| "paced (Notify (AttemptFailed a u) # Sleep n # es) = (n = 5 \<and> paced es)"
| "paced (Notify (AttemptFailed a u) # es) = False"
| "paced (Sleep n # es) = False"
| "paced (Notify (Complete f r) # es) = (sleeps es = [])"
| "paced (e # es) = paced es"

section \<open>Facts about the text primitives\<close>

lemma split1_at_first:
  "c \<notin> set label \<Longrightarrow> split1 c (label @ c # rest) = [label, rest]"
proof -
  assume fresh: "c \<notin> set label"
  then have all: "\<forall>x\<in>set label. x \<noteq> c" by blast
  then have "takeWhile (\<lambda>x. x \<noteq> c) (label @ c # rest) = label"
    by (simp add: takeWhile_tail)
  moreover from all have "dropWhile (\<lambda>x. x \<noteq> c) (label @ c # rest) = c # rest"
    by (simp add: dropWhile_append3)
  ultimately show ?thesis by (simp add: split1_def)
qed

lemma set_strip_subset: "set (strip s) \<subseteq> set s"
proof -
  have "set (strip s) = set (dropWhile is_space (rev (dropWhile is_space s)))"
    by (simp add: strip_def)
  also have "\<dots> \<subseteq> set (rev (dropWhile is_space s))"
    by (meson set_dropWhileD subsetI)
  also have "\<dots> \<subseteq> set s"
    using set_dropWhileD by fastforce
  finally show ?thesis .
qed

lemma strip_empty_iff: "strip s = [] \<longleftrightarrow> (\<forall>c\<in>set s. is_space c)"
proof
  assume e: "strip s = []"
  then have inner: "\<forall>c\<in>set (dropWhile is_space s). is_space c"
    by (simp add: strip_def dropWhile_eq_Nil_conv)
  have "dropWhile is_space s = []"
  proof (cases "dropWhile is_space s")
    case Nil
    then show ?thesis .
  next
    case (Cons y ys)
    then have "\<not> is_space y" using hd_dropWhile [of is_space s] by simp
    moreover from Cons inner have "is_space y" by simp
    ultimately show ?thesis by contradiction
  qed
  then show "\<forall>c\<in>set s. is_space c" by (simp add: dropWhile_eq_Nil_conv)
next
  assume "\<forall>c\<in>set s. is_space c"
  then have d: "dropWhile is_space s = []" by (simp add: dropWhile_eq_Nil_conv)
  show "strip s = []" unfolding strip_def d by simp
qed

section \<open>The job parser\<close>

lemma parse_with_separator:
  assumes "CHR ''|'' \<notin> set label"
  shows "parse_message_text (label @ CHR ''|'' # rest) =
           (if startswith (strip rest) ''http'' \<and> endswith (strip rest) ''.m3u8''
            then (Some (strip rest), Some (clean_filename label @ ''.mp4''))
            else (None, None))"
  using assms by (simp add: parse_message_text_def split1_at_first Let_def)

lemma parse_without_separator:
  assumes "CHR ''|'' \<notin> set text"
  shows "parse_message_text text =
           (if startswith (strip text) ''http'' \<and> endswith (strip text) ''.m3u8''
            then (Some (strip text), None)
            else (None, None))"
  using assms by (simp add: parse_message_text_def Let_def)

lemma parse_none_both:
  "fst (parse_message_text text) = None \<Longrightarrow> parse_message_text text = (None, None)"
  by (auto simp: parse_message_text_def Let_def split: if_splits)

lemma handle_update_rejected:
  assumes "fst (parse_message_text text) = None"
  shows "snd (handle_update (c, q, es) \<lparr>update_id = i, message_text = Some text\<rparr>) = (q, es)"
  using parse_none_both [OF assms] by (simp add: handle_update_def)

lemma clean_filename_no_illegal: "set (clean_filename label) \<inter> set illegal_chars = {}"
proof -
  have "set (clean_filename label) \<subseteq> set (filter (\<lambda>c. c \<notin> set illegal_chars) label)"
    unfolding clean_filename_def by (rule set_strip_subset)
  then show ?thesis by auto
qed

lemma clean_filename_empty_iff:
  "clean_filename label = [] \<longleftrightarrow> (\<forall>c\<in>set label. is_space c \<or> c \<in> set illegal_chars)"
  unfolding clean_filename_def strip_empty_iff by auto

text \<open>
  Claim C2, as the code has it. A text either has a first bar, with a label before it
  and a rest after it, or has no bar. In the first case the candidate link is the rest
  trimmed of surrounding whitespace, in the second the whole text trimmed. The parser
  returns the candidate as the job's link exactly when it starts with \<open>http\<close> and ends
  with \<open>.m3u8\<close>, and nothing otherwise. A text that yields no link yields no file name
  either, and the polling loop then leaves the queue and the messages sent as they were.
\<close>

theorem parse_accepts_iff_trimmed_link:
  "(CHR ''|'' \<notin> set label \<longrightarrow>
      fst (parse_message_text (label @ CHR ''|'' # rest)) =
        (if startswith (strip rest) ''http'' \<and> endswith (strip rest) ''.m3u8''
         then Some (strip rest) else None))
   \<and> (CHR ''|'' \<notin> set text \<longrightarrow>
      fst (parse_message_text text) =
        (if startswith (strip text) ''http'' \<and> endswith (strip text) ''.m3u8''
         then Some (strip text) else None))
   \<and> (fst (parse_message_text t) = None \<longrightarrow>
      parse_message_text t = (None, None)
      \<and> snd (handle_update (c, q, es) \<lparr>update_id = i, message_text = Some t\<rparr>) = (q, es))"
  by (simp add: parse_with_separator parse_without_separator parse_none_both
      handle_update_rejected)

theorem parse_accepts_iff_trimmed_link_witness:
  "fst (parse_message_text ''Algebra Lecture | https://cdn.example/a/index.m3u8'') =
      Some ''https://cdn.example/a/index.m3u8''
   \<and> fst (parse_message_text ''https://cdn.example/a/index.m3u8'') =
      Some ''https://cdn.example/a/index.m3u8''
   \<and> parse_message_text ''x|not a link'' = (None, None)
   \<and> snd (handle_update (Some 1, [], []) \<lparr>update_id = 2, message_text = Some ''x|not a link''\<rparr>)
       = ([], [])"
  using parse_accepts_iff_trimmed_link
    [of "''Algebra Lecture ''" "'' https://cdn.example/a/index.m3u8''"
      "''https://cdn.example/a/index.m3u8''" "''x|not a link''" "Some 1" "[]" "[]" 2]
  by (simp add: parse_message_text_def split1_def clean_filename_def strip_def is_space_def
      startswith_def endswith_def illegal_chars_def handle_update_def)

text \<open>
  Claim C2 as it is worded takes the part after the first bar untrimmed. The text
  \<open>a| http://x.m3u8\<close> has the part \<open> http://x.m3u8\<close> after its bar, which starts
  with a blank and not with \<open>http\<close>; the parser trims it and returns a job.
\<close>

theorem parse_untrimmed_link_counterexample:
  "fst (parse_message_text ''a| http://x.m3u8'') = Some ''http://x.m3u8''
   \<and> spec_candidate_link ''a| http://x.m3u8'' = '' http://x.m3u8''
   \<and> \<not> startswith (spec_candidate_link ''a| http://x.m3u8'') ''http''"
  by (simp add: parse_message_text_def split1_def clean_filename_def strip_def is_space_def
      startswith_def endswith_def illegal_chars_def spec_candidate_link_def)

text \<open>
  Claim C7, as the code has it. For an accepted text with a bar, the output name is the
  label with every character of the illegal set removed and the result then trimmed of
  surrounding whitespace, followed by \<open>.mp4\<close>; no character of the illegal set is left
  in it.
\<close>

theorem output_name_trimmed_sanitized:
  assumes "CHR ''|'' \<notin> set label"
    and "startswith (strip rest) ''http''" and "endswith (strip rest) ''.m3u8''"
  shows "snd (parse_message_text (label @ CHR ''|'' # rest))
           = Some (strip (spec_sanitize label) @ ''.mp4'')
         \<and> set (strip (spec_sanitize label)) \<inter> set illegal_chars = {}"
  using assms clean_filename_no_illegal [of label]
  by (simp add: parse_with_separator clean_filename_def spec_sanitize_def)

theorem output_name_trimmed_sanitized_witness:
  "snd (parse_message_text ''A/B: Lecture? | https://cdn.example/a/index.m3u8'')
     = Some ''AB Lecture.mp4''"
proof -
  have "snd (parse_message_text
          (''A/B: Lecture? '' @ CHR ''|'' # '' https://cdn.example/a/index.m3u8''))
          = Some (strip (spec_sanitize ''A/B: Lecture? '') @ ''.mp4'')"
    using output_name_trimmed_sanitized
      [of "''A/B: Lecture? ''" "'' https://cdn.example/a/index.m3u8''"]
    by (simp add: strip_def is_space_def startswith_def endswith_def)
  then show ?thesis
    by (simp add: spec_sanitize_def strip_def is_space_def illegal_chars_def)
qed

text \<open>
  Claim C7 as it is worded lets the sanitizer do nothing but remove the illegal
  characters. The label \<open>a \<close> (with a blank before the bar) holds none of them, so the
  worded name is \<open>a .mp4\<close>; the code also trims the label and returns \<open>a.mp4\<close>.
\<close>

theorem output_name_untrimmed_counterexample:
  "snd (parse_message_text (''a '' @ ''|'' @ ''http://x.m3u8'')) = Some ''a.mp4''
   \<and> spec_sanitize ''a '' @ ''.mp4'' = ''a .mp4''"
  by (simp add: parse_message_text_def split1_def clean_filename_def strip_def is_space_def
      startswith_def endswith_def illegal_chars_def spec_sanitize_def)

text \<open>
  Claim C10. When the label before the first bar sanitizes to the empty string and the
  link is valid, the parser still returns a job, and its output name is \<open>.mp4\<close>.
  By \<open>clean_filename_empty_iff\<close> the labels concerned are those made of whitespace and
  illegal characters only, the empty label among them.
\<close>

theorem empty_label_gives_dot_mp4:
  assumes "CHR ''|'' \<notin> set label"
    and "startswith (strip rest) ''http''" and "endswith (strip rest) ''.m3u8''"
    and "clean_filename label = []"
  shows "parse_message_text (label @ CHR ''|'' # rest) = (Some (strip rest), Some ''.mp4'')"
  using assms by (simp add: parse_with_separator)

theorem empty_label_gives_dot_mp4_witness:
  "parse_message_text '' /:* |http://x.m3u8'' = (Some ''http://x.m3u8'', Some ''.mp4'')
   \<and> parse_message_text ''|http://x.m3u8'' = (Some ''http://x.m3u8'', Some ''.mp4'')"
  using empty_label_gives_dot_mp4 [of "'' /:* ''" "''http://x.m3u8''"]
    empty_label_gives_dot_mp4 [of "[]" "''http://x.m3u8''"]
  by (simp add: clean_filename_def strip_def is_space_def startswith_def endswith_def
      illegal_chars_def)

section \<open>The playlist and one download attempt\<close>

lemma chunk_loop_map_filter:
  "chunk_loop base acc ls =
     acc @ map (\<lambda>l. if startswith l ''http'' then l else base @ l)
             (filter (\<lambda>l. l \<noteq> [] \<and> \<not> startswith l ''#'') (map strip ls))"
  by (induction ls arbitrary: acc) (simp_all add: Let_def)


lemma no_segments_when_all_skipped:
  assumes "\<forall>l\<in>set (splitlines content). strip l = [] \<or> startswith (strip l) ''#''"
  shows "chunk_urls url content = []"
proof -
  from assms
  have "filter (\<lambda>l. l \<noteq> [] \<and> \<not> startswith l ''#'') (map strip (splitlines content)) = []"
    by (auto simp: filter_empty_conv)
  then show ?thesis
    by (simp add: chunk_urls_def chunk_loop_map_filter)
qed

lemma download_without_segments:
  assumes "http_get w url = Inr content" and "chunk_urls url content = []"
  shows "download_and_merge w url out fs
           = (False, [], cleanup w (if can_write w ''playlist.m3u8''
                                     then insert ''playlist.m3u8'' fs else fs))"
  using assms by (simp add: download_and_merge_def attempt_body_def Let_def)






section \<open>Cleaning the working directory\<close>

lemma remove_each_until_failure:
  "remove_each rm names fs = fs - set (takeWhile (\<lambda>p. p \<in> fs \<longrightarrow> rm p) names)"
proof (induction names arbitrary: fs)
  case Nil
  show ?case by simp
next
  case (Cons f rest)
  show ?case
  proof (cases "f \<in> fs")
    case False
    then have "remove_each rm (f # rest) fs = remove_each rm rest fs" by simp
    also have "\<dots> = fs - set (takeWhile (\<lambda>p. p \<in> fs \<longrightarrow> rm p) rest)" by (rule Cons.IH)
    also from False have "\<dots> = fs - insert f (set (takeWhile (\<lambda>p. p \<in> fs \<longrightarrow> rm p) rest))"
      by blast
    also from False have "\<dots> = fs - set (takeWhile (\<lambda>p. p \<in> fs \<longrightarrow> rm p) (f # rest))"
      by simp
    finally show ?thesis .
  next
    case True
    show ?thesis
    proof (cases "rm f")
      case False
      with True show ?thesis by simp
    next
      case rm: True
      have same: "takeWhile (\<lambda>p. p \<in> fs - {f} \<longrightarrow> rm p) rest
                    = takeWhile (\<lambda>p. p \<in> fs \<longrightarrow> rm p) rest"
      proof (rule takeWhile_cong [OF refl])
        fix x
        show "(x \<in> fs - {f} \<longrightarrow> rm x) = (x \<in> fs \<longrightarrow> rm x)"
          using rm by (cases "x = f") simp_all
      qed
      from True rm have "remove_each rm (f # rest) fs = remove_each rm rest (fs - {f})" by simp
      also have "\<dots> = (fs - {f}) - set (takeWhile (\<lambda>p. p \<in> fs - {f} \<longrightarrow> rm p) rest)"
        by (rule Cons.IH)
      also have "\<dots> = (fs - {f}) - set (takeWhile (\<lambda>p. p \<in> fs \<longrightarrow> rm p) rest)"
        by (simp only: same)
      also have "\<dots> = fs - insert f (set (takeWhile (\<lambda>p. p \<in> fs \<longrightarrow> rm p) rest))"
        by blast
      also from True rm
      have "\<dots> = fs - set (takeWhile (\<lambda>p. p \<in> fs \<longrightarrow> rm p) (f # rest))"
        by simp
      finally show ?thesis .
    qed
  qed
qed

lemma cleanup_until_failure:
  "cleanup w fs
     = fs - set (takeWhile (\<lambda>p. p \<in> fs \<longrightarrow> can_remove w p) (''chunks'' # scratch_files))"
proof -
  have r: "remove_each (can_remove w) (''chunks'' # scratch_files) fs = cleanup w fs"
    by (simp add: cleanup_def)
  show ?thesis unfolding r [symmetric] by (rule remove_each_until_failure)
qed

text \<open>
  Claim C5, as the code has it. Whatever the attempt did and whether it returns success
  or failure, the working directory it leaves is the one the \<^verbatim>\<open>finally\<close> block made of
  the one the \<^verbatim>\<open>try\<close> block left. That block goes through the segment directory
  \<open>chunks\<close>, \<open>temp.ts\<close>, \<open>playlist.m3u8\<close>, \<open>chunks.txt\<close> and \<open>output.mp4\<close> in this
  order and removes those that exist, up to the first one whose removal raises: that
  one and the ones after it stay. When every removal it performs succeeds, none of the
  five exists afterwards.
\<close>

theorem scratch_removed_when_removals_succeed:
  "snd (snd (download_and_merge w url out fs))
     = cleanup w (snd (snd (attempt_body w url out fs)))
   \<and> cleanup w left
     = left - set (takeWhile (\<lambda>p. p \<in> left \<longrightarrow> can_remove w p)
                     [''chunks'', ''temp.ts'', ''playlist.m3u8'', ''chunks.txt'', ''output.mp4''])
   \<and> ((\<forall>p\<in>{''chunks'', ''temp.ts'', ''playlist.m3u8'', ''chunks.txt'', ''output.mp4''}.
          p \<in> snd (snd (attempt_body w url out fs)) \<longrightarrow> can_remove w p)
      \<longrightarrow> snd (snd (download_and_merge w url out fs)) \<inter>
           {''chunks'', ''temp.ts'', ''playlist.m3u8'', ''chunks.txt'', ''output.mp4''} = {})"
proof (intro conjI impI)
  obtain r tools fs1 where b: "attempt_body w url out fs = (r, tools, fs1)"
    by (rule prod_cases3)
  then show run: "snd (snd (download_and_merge w url out fs))
     = cleanup w (snd (snd (attempt_body w url out fs)))"
    by (simp add: download_and_merge_def)
  show "cleanup w left
     = left - set (takeWhile (\<lambda>p. p \<in> left \<longrightarrow> can_remove w p)
                     [''chunks'', ''temp.ts'', ''playlist.m3u8'', ''chunks.txt'', ''output.mp4''])"
    using cleanup_until_failure [of w left] by (simp only: scratch_files_def)
  assume ok: "\<forall>p\<in>{''chunks'', ''temp.ts'', ''playlist.m3u8'', ''chunks.txt'', ''output.mp4''}.
          p \<in> snd (snd (attempt_body w url out fs)) \<longrightarrow> can_remove w p"
  then have "\<forall>p\<in>set (''chunks'' # scratch_files). p \<in> fs1 \<longrightarrow> can_remove w p"
    using b by (simp add: scratch_files_def)
  then have "takeWhile (\<lambda>p. p \<in> fs1 \<longrightarrow> can_remove w p) (''chunks'' # scratch_files)
               = ''chunks'' # scratch_files"
    by (simp only: takeWhile_eq_all_conv)
  then have "cleanup w fs1 = fs1 - set (''chunks'' # scratch_files)"
    using cleanup_until_failure [of w fs1] by (simp only:)
  with run b
  have res: "snd (snd (download_and_merge w url out fs)) = fs1 - set (''chunks'' # scratch_files)"
    by (simp only: snd_conv)
  have names: "{''chunks'', ''temp.ts'', ''playlist.m3u8'', ''chunks.txt'', ''output.mp4''}
                 = set (''chunks'' # scratch_files)"
    by (simp add: scratch_files_def)
  have "set (''chunks'' # scratch_files) \<inter> (fs1 - set (''chunks'' # scratch_files)) = {}"
    by (rule Diff_disjoint)
  then show "snd (snd (download_and_merge w url out fs)) \<inter>
           {''chunks'', ''temp.ts'', ''playlist.m3u8'', ''chunks.txt'', ''output.mp4''} = {}"
    unfolding res names by (simp only: Int_commute)
qed


theorem scratch_removed_when_removals_succeed_witness:
  "snd (snd (download_and_merge
      \<lparr>http_get = (\<lambda>u. Inr ''seg.ts''), can_write = (\<lambda>f. True),
        run_tool = (\<lambda>t fs. (t \<noteq> Ffmpeg,
           case t of Aria2c \<Rightarrow> insert ''chunks'' fs | Cat \<Rightarrow> insert ''temp.ts'' fs
           | Ffmpeg \<Rightarrow> fs)),
        copy_out = (\<lambda>p. True), can_remove = (\<lambda>p. p \<noteq> ''output.mp4'')\<rparr>
      ''http://h/a/b.m3u8'' ''/out/v.mp4'' {''notes.txt''})) \<inter>
           {''chunks'', ''temp.ts'', ''playlist.m3u8'', ''chunks.txt'', ''output.mp4''} = {}"
proof -
  let ?w = "\<lparr>http_get = (\<lambda>u. Inr ''seg.ts''), can_write = (\<lambda>f. True),
        run_tool = (\<lambda>t fs. (t \<noteq> Ffmpeg,
           case t of Aria2c \<Rightarrow> insert ''chunks'' fs | Cat \<Rightarrow> insert ''temp.ts'' fs
           | Ffmpeg \<Rightarrow> fs)),
        copy_out = (\<lambda>p. True), can_remove = (\<lambda>p. p \<noteq> ''output.mp4'')\<rparr>"
  have performed:
    "\<forall>p\<in>{''chunks'', ''temp.ts'', ''playlist.m3u8'', ''chunks.txt'', ''output.mp4''}.
        p \<in> snd (snd (attempt_body ?w ''http://h/a/b.m3u8'' ''/out/v.mp4'' {''notes.txt''}))
        \<longrightarrow> can_remove ?w p"
    by (simp add: attempt_body_def chunk_urls_def splitlines_def is_linebreak_def strip_def
        is_space_def startswith_def base_url_def rsplit1_def)
  from scratch_removed_when_removals_succeed
    [where w = ?w and url = "''http://h/a/b.m3u8''" and out = "''/out/v.mp4''"
       and fs = "{''notes.txt''}", THEN conjunct2, THEN conjunct2] performed
  show ?thesis by (rule mp)
qed

text \<open>
  Claim C5 as it is worded holds for every outcome. The \<^verbatim>\<open>finally\<close> block swallows
  an exception of a removal and stops there. In a working directory where the segment
  directory cannot be removed, a download that succeeds returns with the directory and
  all four files still in place.
\<close>

theorem failed_removal_leaves_scratch_counterexample:
  "download_and_merge
      \<lparr>http_get = (\<lambda>u. Inr ''seg.ts''), can_write = (\<lambda>f. True),
        run_tool = (\<lambda>t fs. (True,
           insert (case t of Aria2c \<Rightarrow> ''chunks'' | Cat \<Rightarrow> ''temp.ts''
                   | Ffmpeg \<Rightarrow> ''output.mp4'') fs)),
        copy_out = (\<lambda>p. True), can_remove = (\<lambda>p. p \<noteq> ''chunks'')\<rparr>
      ''http://h/a/b.m3u8'' ''/out/v.mp4'' {}
   = (True, [Aria2c, Cat, Ffmpeg],
      {''chunks'', ''temp.ts'', ''playlist.m3u8'', ''chunks.txt'', ''output.mp4''})"
  by (auto simp: strip_def is_space_def startswith_def splitlines_def is_linebreak_def
      base_url_def rsplit1_def chunk_urls_def download_and_merge_def attempt_body_def
      cleanup_def scratch_files_def)

section \<open>The retry loop\<close>

lemma downloads_append: "downloads (xs @ ys) = downloads xs @ downloads ys"
  by (induction xs) (simp_all split: event.splits)

lemma sleeps_append: "sleeps (xs @ ys) = sleeps xs @ sleeps ys"
  by (induction xs) (simp_all split: event.splits)

lemma completions_append: "completions (xs @ ys) = completions xs @ completions ys"
  by (induction xs) (simp_all split: event.splits notification.splits)

lemma failed_attempts_append:
  "failed_attempts (xs @ ys) = failed_attempts xs @ failed_attempts ys"
  by (induction xs) (simp_all split: event.splits notification.splits)

lemma readings_of_runs:
  "downloads (map Run ts) = []" "sleeps (map Run ts) = []"
  "completions (map Run ts) = []" "failed_attempts (map Run ts) = []"
  by (induction ts) simp_all

lemma paced_runs: "paced (map Run ts @ es) = paced es"
  by (induction ts) simp_all

lemmas readings = downloads_append sleeps_append completions_append failed_attempts_append
  readings_of_runs

lemma attempts_step:
  "attempts ws url dest f r (a # later) fs =
     (let d = download_and_merge (ws a) url dest fs;
          called = [Notify (AttemptStarted a MAX_RETRIES), Download a] @ map Run (fst (snd d))
      in if fst d then (True, called @ [Notify (Complete f r)], snd (snd d))
         else
           let rest = attempts ws url dest f r later (snd (snd d))
           in (fst rest, called @ [Notify (AttemptFailed a url), Sleep 5] @ fst (snd rest),
               snd (snd rest)))"
  by (simp add: Let_def split: prod.splits)

lemma attempt_numbers: "[1..<MAX_RETRIES + 1] = [1, 2, 3]"
  by (simp add: MAX_RETRIES_def upt_rec)

lemma attempts_downloads_prefix:
  "downloads (fst (snd (attempts ws url dest f r as fs)))
     = take (length (downloads (fst (snd (attempts ws url dest f r as fs))))) as"
proof (induction as arbitrary: fs)
  case Nil
  show ?case by simp
next
  case (Cons a as)
  show ?case
    using Cons.IH [of "snd (snd (download_and_merge (ws a) url dest fs))"]
    by (simp add: attempts_step Let_def readings del: attempts.simps)
qed

lemma attempts_success:
  "fst (attempts ws url dest f r as fs) \<Longrightarrow>
     completions (fst (snd (attempts ws url dest f r as fs))) = [Complete f r]
     \<and> fst (snd (attempts ws url dest f r as fs)) \<noteq> []
     \<and> last (fst (snd (attempts ws url dest f r as fs))) = Notify (Complete f r)"
proof (induction as arbitrary: fs)
  case Nil
  then show ?case by simp
next
  case (Cons a as)
  show ?case
    using Cons.prems Cons.IH [of "snd (snd (download_and_merge (ws a) url dest fs))"]
    by (simp add: attempts_step Let_def readings del: attempts.simps split: if_splits)
qed

lemma attempts_failure:
  "\<not> fst (attempts ws url dest f r as fs) \<Longrightarrow>
     completions (fst (snd (attempts ws url dest f r as fs))) = []
     \<and> downloads (fst (snd (attempts ws url dest f r as fs))) = as
     \<and> failed_attempts (fst (snd (attempts ws url dest f r as fs))) = as"
proof (induction as arbitrary: fs)
  case Nil
  then show ?case by simp
next
  case (Cons a as)
  show ?case
    using Cons.prems Cons.IH [of "snd (snd (download_and_merge (ws a) url dest fs))"]
    by (simp add: attempts_step Let_def readings del: attempts.simps split: if_splits)
qed

lemma attempts_counts:
  "length (failed_attempts (fst (snd (attempts ws url dest f r as fs))))
     + length (completions (fst (snd (attempts ws url dest f r as fs))))
   = length (downloads (fst (snd (attempts ws url dest f r as fs))))
   \<and> sleeps (fst (snd (attempts ws url dest f r as fs)))
     = replicate (length (failed_attempts (fst (snd (attempts ws url dest f r as fs))))) 5"
proof (induction as arbitrary: fs)
  case Nil
  show ?case by simp
next
  case (Cons a as)
  show ?case
    using Cons.IH [of "snd (snd (download_and_merge (ws a) url dest fs))"]
    by (simp add: attempts_step Let_def readings del: attempts.simps)
qed

lemma attempts_paced:
  "paced (fst (snd (attempts ws url dest f r as fs)) @ after)
     = (if fst (attempts ws url dest f r as fs) then sleeps after = [] else paced after)"
proof (induction as arbitrary: fs)
  case Nil
  show ?case by simp
next
  case (Cons a as)
  show ?case
    using Cons.IH [of "snd (snd (download_and_merge (ws a) url dest fs))"]
    by (simp add: attempts_step Let_def paced_runs del: attempts.simps)
qed

lemma process_job_events:
  "fst (process_job ws now (url, name) r fs) =
     Notify (Starting url r)
       # fst (snd (attempts ws url (DRIVE_FOLDER @ ''/'' @ job_filename now name)
                     (job_filename now name) r [1, 2, 3] fs))
       @ (if fst (attempts ws url (DRIVE_FOLDER @ ''/'' @ job_filename now name)
                     (job_filename now name) r [1, 2, 3] fs)
          then [] else [Notify (AllFailed url r)])"
  unfolding process_job_def attempt_numbers
  by (simp add: Let_def case_prod_beta del: attempts.simps)

text \<open>
  Claim C6. When the playlist an attempt fetches has no line that, once trimmed, is
  neither empty nor starts with \<open>#\<close>, which covers every playlist whose lines are all
  blank or start with \<open>#\<close>, the attempt returns failure and runs none of the external
  commands. When that is so for each of the three attempts of a job, the job's trace is
  the three failed attempts and the final failure notice, with no command run.
\<close>

theorem empty_manifest_fails_without_tools:
  "(http_get w url = Inr content
      \<and> (\<forall>l\<in>set (splitlines content). strip l = [] \<or> startswith (strip l) ''#'')
    \<longrightarrow> fst (download_and_merge w url out fs) = False
        \<and> fst (snd (download_and_merge w url out fs)) = [])
   \<and> ((\<forall>a\<in>{1, 2, 3}. \<exists>content. http_get (ws a) url = Inr content
          \<and> (\<forall>l\<in>set (splitlines content). strip l = [] \<or> startswith (strip l) ''#''))
    \<longrightarrow> fst (process_job ws now (url, name) r fs) =
          [Notify (Starting url r),
           Notify (AttemptStarted 1 3), Download 1, Notify (AttemptFailed 1 url), Sleep 5,
           Notify (AttemptStarted 2 3), Download 2, Notify (AttemptFailed 2 url), Sleep 5,
           Notify (AttemptStarted 3 3), Download 3, Notify (AttemptFailed 3 url), Sleep 5,
           Notify (AllFailed url r)])"
proof (intro conjI impI)
  assume h: "http_get w url = Inr content
      \<and> (\<forall>l\<in>set (splitlines content). strip l = [] \<or> startswith (strip l) ''#'')"
  then have "chunk_urls url content = []" by (simp add: no_segments_when_all_skipped)
  with h show "fst (download_and_merge w url out fs) = False"
    and "fst (snd (download_and_merge w url out fs)) = []"
    by (simp_all add: download_without_segments)
next
  assume h: "\<forall>a\<in>{1, 2, 3}. \<exists>content. http_get (ws a) url = Inr content
          \<and> (\<forall>l\<in>set (splitlines content). strip l = [] \<or> startswith (strip l) ''#'')"
  have fails: "fst (download_and_merge (ws a) url out fs') = False
      \<and> fst (snd (download_and_merge (ws a) url out fs')) = []"
    if "a \<in> {1, 2, 3}" for a out fs'
  proof -
    from h that obtain content where c: "http_get (ws a) url = Inr content"
      and e: "\<forall>l\<in>set (splitlines content). strip l = [] \<or> startswith (strip l) ''#''"
      by blast
    from e have "chunk_urls url content = []" by (rule no_segments_when_all_skipped)
    with c show ?thesis by (simp add: download_without_segments)
  qed
  have f1: "\<And>out fs'. \<not> fst (download_and_merge (ws (Suc 0)) url out fs')"
    and t1: "\<And>out fs'. fst (snd (download_and_merge (ws (Suc 0)) url out fs')) = []"
    using fails [of 1] by simp_all
  have f2: "\<And>out fs'. \<not> fst (download_and_merge (ws 2) url out fs')"
    and t2: "\<And>out fs'. fst (snd (download_and_merge (ws 2) url out fs')) = []"
    using fails [of 2] by simp_all
  have f3: "\<And>out fs'. \<not> fst (download_and_merge (ws 3) url out fs')"
    and t3: "\<And>out fs'. fst (snd (download_and_merge (ws 3) url out fs')) = []"
    using fails [of 3] by simp_all
  show "fst (process_job ws now (url, name) r fs) =
          [Notify (Starting url r),
           Notify (AttemptStarted 1 3), Download 1, Notify (AttemptFailed 1 url), Sleep 5,
           Notify (AttemptStarted 2 3), Download 2, Notify (AttemptFailed 2 url), Sleep 5,
           Notify (AttemptStarted 3 3), Download 3, Notify (AttemptFailed 3 url), Sleep 5,
           Notify (AllFailed url r)]"
    by (simp add: process_job_events attempts_step Let_def f1 f2 f3 t1 t2 t3 MAX_RETRIES_def
        del: attempts.simps(2))
qed

theorem empty_manifest_fails_without_tools_witness:
  "download_and_merge
      \<lparr>http_get = (\<lambda>u. Inr (''#EXTM3U'' @ [CHR 0x0A, CHR 0x0A] @ ''  # no segments'')),
        can_write = (\<lambda>f. True), run_tool = (\<lambda>t fs. (True, fs)),
        copy_out = (\<lambda>p. True), can_remove = (\<lambda>p. True)\<rparr>
      ''http://h/a/b.m3u8'' ''/out/v.mp4'' {} = (False, [], {})"
proof -
  let ?c = "''#EXTM3U'' @ [CHR 0x0A, CHR 0x0A] @ ''  # no segments''"
  let ?w = "\<lparr>http_get = (\<lambda>u. Inr ?c),
        can_write = (\<lambda>f. True), run_tool = (\<lambda>t fs. (True, fs)),
        copy_out = (\<lambda>p. True), can_remove = (\<lambda>p. True)\<rparr>"
  have lines: "\<forall>l\<in>set (splitlines ?c). strip l = [] \<or> startswith (strip l) ''#''"
    by (simp add: splitlines_def is_linebreak_def strip_def is_space_def startswith_def)
  have got: "http_get ?w ''http://h/a/b.m3u8'' = Inr ?c" by simp
  from empty_manifest_fails_without_tools
    [where w = ?w and url = "''http://h/a/b.m3u8''" and content = ?c and out = "''/out/v.mp4''"
       and fs = "{}"] got lines
  have "fst (download_and_merge ?w ''http://h/a/b.m3u8'' ''/out/v.mp4'' {}) = False
        \<and> fst (snd (download_and_merge ?w ''http://h/a/b.m3u8'' ''/out/v.mp4'' {})) = []"
    by blast
  moreover have "snd (snd (download_and_merge ?w ''http://h/a/b.m3u8'' ''/out/v.mp4'' {})) = {}"
    by (simp add: download_and_merge_def attempt_body_def chunk_urls_def splitlines_def
        is_linebreak_def strip_def is_space_def startswith_def cleanup_def scratch_files_def)
  ultimately show ?thesis by (simp add: prod_eq_iff)
qed

lemma process_job_by_results:
  "fst (process_job ws now (url, name) r fs) =
     (let dest = DRIVE_FOLDER @ ''/'' @ job_filename now name;
          done = Notify (Complete (job_filename now name) r);
          d1 = download_and_merge (ws 1) url dest fs;
          d2 = download_and_merge (ws 2) url dest (snd (snd d1));
          d3 = download_and_merge (ws 3) url dest (snd (snd d2))
      in Notify (Starting url r) # Notify (AttemptStarted 1 3) # Download 1
           # map Run (fst (snd d1))
           @ (if fst d1 then [done]
              else Notify (AttemptFailed 1 url) # Sleep 5
                 # Notify (AttemptStarted 2 3) # Download 2 # map Run (fst (snd d2))
                 @ (if fst d2 then [done]
                    else Notify (AttemptFailed 2 url) # Sleep 5
                       # Notify (AttemptStarted 3 3) # Download 3 # map Run (fst (snd d3))
                       @ (if fst d3 then [done]
                          else [Notify (AttemptFailed 3 url), Sleep 5,
                                Notify (AllFailed url r)]))))"
  by (simp add: process_job_events attempts_step Let_def MAX_RETRIES_def
      del: attempts.simps(2))

text \<open>
  Claim C1. Let \<open>d1\<close>, \<open>d2\<close>, \<open>d3\<close> be what the downloader returns on attempts 1, 2 and
  3 of a job, each run in the working directory the one before left. The calls made are
  attempt 1 alone when it succeeds, attempts 1 and 2 when the first fails and the second
  succeeds, and attempts 1, 2, 3 otherwise: never more than three, in order, and none
  after the first success. Each call that fails gives one failure notification, a call
  that succeeds gives the one success notification, which is the last event of the
  trace. A job whose attempts 1 and 2 fail and whose attempt 3 succeeds makes exactly
  the calls 1, 2, 3, with two failure notifications and one success notification, which
  comes last. At any point of the loop, an attempt that succeeds is the only call made
  from there on.
\<close>

theorem at_most_three_attempts_stop_on_success:
  "(let dest = DRIVE_FOLDER @ ''/'' @ job_filename now name;
        done = Complete (job_filename now name) r;
        d1 = download_and_merge (ws 1) url dest fs;
        d2 = download_and_merge (ws 2) url dest (snd (snd d1));
        d3 = download_and_merge (ws 3) url dest (snd (snd d2));
        es = fst (process_job ws now (url, name) r fs)
    in downloads es = (if fst d1 then [1] else if fst d2 then [1, 2] else [1, 2, 3])
       \<and> failed_attempts es =
           (if fst d1 then [] else if fst d2 then [1] else if fst d3 then [1, 2] else [1, 2, 3])
       \<and> completions es = (if fst d1 \<or> fst d2 \<or> fst d3 then [done] else [])
       \<and> length (downloads es) \<le> 3
       \<and> downloads es = take (length (downloads es)) [1, 2, 3]
       \<and> length (failed_attempts es) + length (completions es) = length (downloads es)
       \<and> (length (downloads es) < 3 \<longrightarrow> completions es = [done])
       \<and> (completions es \<noteq> [] \<longrightarrow> completions es = [done] \<and> last es = Notify done)
       \<and> (\<not> fst d1 \<and> \<not> fst d2 \<and> fst d3
          \<longrightarrow> downloads es = [1, 2, 3] \<and> failed_attempts es = [1, 2]
              \<and> completions es = [done] \<and> last es = Notify done))
   \<and> (fst (download_and_merge (ws a) url dest' fs')
        \<longrightarrow> downloads (fst (snd (attempts ws url dest' f r (a # later) fs'))) = [a])"
proof -
  define dest where "dest = DRIVE_FOLDER @ ''/'' @ job_filename now name"
  define fin where "fin = Complete (job_filename now name) r"
  define d1 where "d1 = download_and_merge (ws 1) url dest fs"
  define d2 where "d2 = download_and_merge (ws 2) url dest (snd (snd d1))"
  define d3 where "d3 = download_and_merge (ws 3) url dest (snd (snd d2))"
  define es where "es = fst (process_job ws now (url, name) r fs)"
  have E: "es = Notify (Starting url r) # Notify (AttemptStarted 1 3) # Download 1
           # map Run (fst (snd d1))
           @ (if fst d1 then [Notify fin]
              else Notify (AttemptFailed 1 url) # Sleep 5
                 # Notify (AttemptStarted 2 3) # Download 2 # map Run (fst (snd d2))
                 @ (if fst d2 then [Notify fin]
                    else Notify (AttemptFailed 2 url) # Sleep 5
                       # Notify (AttemptStarted 3 3) # Download 3 # map Run (fst (snd d3))
                       @ (if fst d3 then [Notify fin]
                          else [Notify (AttemptFailed 3 url), Sleep 5,
                                Notify (AllFailed url r)])))"
    unfolding es_def d3_def d2_def d1_def fin_def dest_def
    using process_job_by_results [of ws now url name r fs] by (simp only: Let_def)
  have dl: "downloads es = (if fst d1 then [1] else if fst d2 then [1, 2] else [1, 2, 3])"
    by (simp add: E readings fin_def)
  have fl: "failed_attempts es =
           (if fst d1 then [] else if fst d2 then [1] else if fst d3 then [1, 2] else [1, 2, 3])"
    by (simp add: E readings fin_def)
  have cp: "completions es = (if fst d1 \<or> fst d2 \<or> fst d3 then [fin] else [])"
    by (simp add: E readings fin_def)
  have la: "last es = Notify fin" if "completions es \<noteq> []"
    using that unfolding cp by (cases "fst d1"; cases "fst d2"; cases "fst d3") (simp_all add: E)
  have stop: "downloads (fst (snd (attempts ws url dest' f r (a # later) fs'))) = [a]"
    if "fst (download_and_merge (ws a) url dest' fs')"
    using that by (simp add: attempts_step Let_def readings del: attempts.simps(2))
  have main: "downloads es = (if fst d1 then [1] else if fst d2 then [1, 2] else [1, 2, 3])
       \<and> failed_attempts es =
           (if fst d1 then [] else if fst d2 then [1] else if fst d3 then [1, 2] else [1, 2, 3])
       \<and> completions es = (if fst d1 \<or> fst d2 \<or> fst d3 then [fin] else [])
       \<and> length (downloads es) \<le> 3
       \<and> downloads es = take (length (downloads es)) [1, 2, 3]
       \<and> length (failed_attempts es) + length (completions es) = length (downloads es)
       \<and> (length (downloads es) < 3 \<longrightarrow> completions es = [fin])
       \<and> (completions es \<noteq> [] \<longrightarrow> completions es = [fin] \<and> last es = Notify fin)
       \<and> (\<not> fst d1 \<and> \<not> fst d2 \<and> fst d3
          \<longrightarrow> downloads es = [1, 2, 3] \<and> failed_attempts es = [1, 2]
              \<and> completions es = [fin] \<and> last es = Notify fin)"
  proof (intro conjI impI)
    show "downloads es = (if fst d1 then [1] else if fst d2 then [1, 2] else [1, 2, 3])"
      by (rule dl)
    show "failed_attempts es =
           (if fst d1 then [] else if fst d2 then [1] else if fst d3 then [1, 2] else [1, 2, 3])"
      by (rule fl)
    show "completions es = (if fst d1 \<or> fst d2 \<or> fst d3 then [fin] else [])" by (rule cp)
    show "length (downloads es) \<le> 3" by (simp add: dl)
    show "downloads es = take (length (downloads es)) [1, 2, 3]" by (simp add: dl)
    show "length (failed_attempts es) + length (completions es) = length (downloads es)"
      by (simp add: dl fl cp)
    show "completions es = [fin]" if "length (downloads es) < 3"
      using that by (simp add: dl cp split: if_splits)
    show "completions es = [fin]" if "completions es \<noteq> []"
      using that by (simp add: cp split: if_splits)
    show "last es = Notify fin" if "completions es \<noteq> []"
      using that by (rule la)
    show "downloads es = [1, 2, 3]" if "\<not> fst d1 \<and> \<not> fst d2 \<and> fst d3"
      using that by (simp add: dl)
    show "failed_attempts es = [1, 2]" if "\<not> fst d1 \<and> \<not> fst d2 \<and> fst d3"
      using that by (simp add: fl)
    show c3: "completions es = [fin]" if "\<not> fst d1 \<and> \<not> fst d2 \<and> fst d3"
      using that by (simp add: cp)
    show "last es = Notify fin" if "\<not> fst d1 \<and> \<not> fst d2 \<and> fst d3"
      using that by (simp add: E)
  qed
  show ?thesis
    unfolding Let_def dest_def [symmetric] fin_def [symmetric]
    unfolding d1_def [symmetric]
    unfolding d2_def [symmetric]
    unfolding d3_def [symmetric] es_def [symmetric]
    by (rule conjI, rule main, rule impI, erule stop)
qed


theorem at_most_three_attempts_stop_on_success_witness:
  "downloads (fst (process_job
      (\<lambda>a. \<lparr>http_get = (\<lambda>u. if a = 3 then Inr ''seg.ts'' else Inl RequestFailed),
             can_write = (\<lambda>f. True), run_tool = (\<lambda>t fs. (True, fs)),
             copy_out = (\<lambda>p. True), can_remove = (\<lambda>p. True)\<rparr>)
      ''T'' (''http://h/a/b.m3u8'', Some ''x.mp4'') 0 {})) = [1, 2, 3]
   \<and> completions (fst (process_job
      (\<lambda>a. \<lparr>http_get = (\<lambda>u. if a = 3 then Inr ''seg.ts'' else Inl RequestFailed),
             can_write = (\<lambda>f. True), run_tool = (\<lambda>t fs. (True, fs)),
             copy_out = (\<lambda>p. True), can_remove = (\<lambda>p. True)\<rparr>)
      ''T'' (''http://h/a/b.m3u8'', Some ''x.mp4'') 0 {})) = [Complete ''x.mp4'' 0]"
proof -
  let ?ws = "\<lambda>a::nat. \<lparr>http_get = (\<lambda>u::string. if a = 3 then Inr ''seg.ts'' else Inl RequestFailed),
             can_write = (\<lambda>f. True), run_tool = (\<lambda>t fs. (True, fs)),
             copy_out = (\<lambda>p. True), can_remove = (\<lambda>p. True)\<rparr>"
  let ?url = "''http://h/a/b.m3u8''"
  let ?dest = "DRIVE_FOLDER @ ''/'' @ job_filename ''T'' (Some ''x.mp4'')"
  let ?d1 = "download_and_merge (?ws 1) ?url ?dest {}"
  let ?d2 = "download_and_merge (?ws 2) ?url ?dest (snd (snd ?d1))"
  let ?d3 = "download_and_merge (?ws 3) ?url ?dest (snd (snd ?d2))"
  let ?es = "fst (process_job ?ws ''T'' (?url, Some ''x.mp4'') 0 {})"
  have results: "\<not> fst ?d1 \<and> \<not> fst ?d2 \<and> fst ?d3"
    by (simp add: download_and_merge_def attempt_body_def chunk_urls_def splitlines_def
        is_linebreak_def strip_def is_space_def startswith_def base_url_def rsplit1_def)
  have fn: "job_filename ''T'' (Some ''x.mp4'') = ''x.mp4''"
    by (simp add: job_filename_def)
  note T = at_most_three_attempts_stop_on_success
    [where ws = ?ws and now = "''T''" and url = ?url and name = "Some ''x.mp4''" and r = 0
       and fs = "{}", unfolded Let_def, THEN conjunct1]
  from T [THEN conjunct2, THEN conjunct2, THEN conjunct2, THEN conjunct2, THEN conjunct2,
          THEN conjunct2, THEN conjunct2, THEN conjunct2] results
  have R: "downloads ?es = [1, 2, 3] \<and> failed_attempts ?es = [1, 2]
      \<and> completions ?es = [Complete (job_filename ''T'' (Some ''x.mp4'')) 0]
      \<and> last ?es = Notify (Complete (job_filename ''T'' (Some ''x.mp4'')) 0)"
    by (rule mp)
  from R [THEN conjunct1] R [THEN conjunct2, THEN conjunct2, THEN conjunct1, unfolded fn]
  show ?thesis by (rule conjI)
qed

text \<open>
  Claim C8, as the code has it. In the trace of one job every failure notification of an
  attempt is followed at once by a pause of 5, whether or not attempts remain; every
  pause of the trace follows such a notification; no pause follows a success
  notification. So there are as many pauses as failed attempts, and a job without a
  success has failed three times and paused three times. (The pause of the polling
  loop, \<open>POLL_INTERVAL\<close>, comes after the job and is not part of this trace.)
\<close>

theorem pause_after_every_failed_attempt:
  "(let es = fst (process_job ws now (url, name) r fs)
    in paced es
       \<and> sleeps es = replicate (length (failed_attempts es)) 5
       \<and> (completions es = [] \<longrightarrow> failed_attempts es = [1, 2, 3] \<and> sleeps es = [5, 5, 5]))"
proof -
  define fn where "fn = job_filename now name"
  define A where "A = attempts ws url (DRIVE_FOLDER @ ''/'' @ fn) fn r [1, 2, 3] fs"
  define ev where "ev = fst (snd A)"
  define es where "es = fst (process_job ws now (url, name) r fs)"
  have es: "es = Notify (Starting url r) # ev @ (if fst A then [] else [Notify (AllFailed url r)])"
    unfolding es_def ev_def A_def fn_def by (rule process_job_events)
  have c: "completions es = completions ev" and fa: "failed_attempts es = failed_attempts ev"
    and sl: "sleeps es = sleeps ev"
    by (simp_all add: es readings)
  have "paced (ev @ (if fst A then [] else [Notify (AllFailed url r)]))
          = (if fst A then sleeps (if fst A then [] else [Notify (AllFailed url r)]) = []
             else paced (if fst A then [] else [Notify (AllFailed url r)]))"
    unfolding ev_def A_def by (rule attempts_paced)
  then have p: "paced es" by (simp add: es split: if_splits)
  have "sleeps ev = replicate (length (failed_attempts ev)) 5"
    unfolding ev_def A_def using attempts_counts by blast
  then have n: "sleeps es = replicate (length (failed_attempts es)) 5"
    by (simp add: sl fa)
  have all: "failed_attempts es = [1, 2, 3] \<and> sleeps es = [5, 5, 5]" if "completions es = []"
  proof -
    have "\<not> fst A"
    proof
      assume "fst A"
      then have "completions ev = [Complete fn r]"
        using attempts_success unfolding ev_def A_def by blast
      with that c show False by simp
    qed
    then have "failed_attempts ev = [1, 2, 3]"
      using attempts_failure unfolding ev_def A_def by blast
    with n fa show ?thesis by (simp add: numeral_3_eq_3)
  qed
  show ?thesis
    unfolding Let_def es_def [symmetric]
    using p n all by blast
qed

theorem pause_after_every_failed_attempt_witness:
  "sleeps (fst (process_job
      (\<lambda>a. \<lparr>http_get = (\<lambda>u. Inl RequestFailed),
             can_write = (\<lambda>f. True), run_tool = (\<lambda>t fs. (True, fs)),
             copy_out = (\<lambda>p. True), can_remove = (\<lambda>p. True)\<rparr>)
      ''T'' (''http://h/a/b.m3u8'', Some ''x.mp4'') 2 {})) = [5, 5, 5]"
proof -
  let ?ws = "\<lambda>a::nat. \<lparr>http_get = (\<lambda>u::string. Inl RequestFailed),
             can_write = (\<lambda>f. True), run_tool = (\<lambda>t fs. (True, fs)),
             copy_out = (\<lambda>p. True), can_remove = (\<lambda>p. True)\<rparr>"
  let ?es = "fst (process_job ?ws ''T'' (''http://h/a/b.m3u8'', Some ''x.mp4'') 2 {})"
  have none: "completions ?es = []"
    by (simp add: process_job_events attempts_step Let_def MAX_RETRIES_def
        download_and_merge_def attempt_body_def del: attempts.simps(2))
  from pause_after_every_failed_attempt
    [where ws = ?ws and now = "''T''" and url = "''http://h/a/b.m3u8''"
       and name = "Some ''x.mp4''" and r = 2 and fs = "{}", unfolded Let_def,
     THEN conjunct2, THEN conjunct2] none
  have "failed_attempts ?es = [1, 2, 3] \<and> sleeps ?es = [5, 5, 5]"
    by (rule mp)
  then show ?thesis by (rule conjunct2)
qed

text \<open>
  Claim C8 as it is worded has no pause after the final failed attempt. When all three
  attempts fail, the third failure notification is followed by a pause of 5 before the
  notice that all attempts failed.
\<close>

theorem pause_after_final_failure_counterexample:
  "fst (process_job
      (\<lambda>a. \<lparr>http_get = (\<lambda>u. Inl RequestFailed),
             can_write = (\<lambda>f. True), run_tool = (\<lambda>t fs. (True, fs)),
             copy_out = (\<lambda>p. True), can_remove = (\<lambda>p. True)\<rparr>)
      ''T'' (''http://h/a/b.m3u8'', None) 0 {})
   = [Notify (Starting ''http://h/a/b.m3u8'' 0),
      Notify (AttemptStarted 1 3), Download 1, Notify (AttemptFailed 1 ''http://h/a/b.m3u8''), Sleep 5,
      Notify (AttemptStarted 2 3), Download 2, Notify (AttemptFailed 2 ''http://h/a/b.m3u8''), Sleep 5,
      Notify (AttemptStarted 3 3), Download 3, Notify (AttemptFailed 3 ''http://h/a/b.m3u8''), Sleep 5,
      Notify (AllFailed ''http://h/a/b.m3u8'' 0)]"
  by (simp add: process_job_events attempts_step Let_def MAX_RETRIES_def download_and_merge_def
      attempt_body_def del: attempts.simps(2))

section \<open>The cursor\<close>

lemma handle_update_cursor:
  "fst (handle_update (c, q, es) m) =
     (case c of None \<Rightarrow> Some (update_id m) | Some c0 \<Rightarrow> Some (max c0 (update_id m)))"
  by (auto simp: handle_update_def Let_def split: option.splits prod.splits)

lemma handle_update_seen:
  "update_id m \<le> c0 \<Longrightarrow> handle_update (Some c0, q, es) m = (Some c0, q, es)"
  by (simp add: handle_update_def)

lemma foldl_handle_update_cursor:
  "fst (foldl handle_update (c, q, es) msgs) =
     (if msgs = [] then c else Some (Max (set (map update_id msgs) \<union> set_option c)))"
proof (induction msgs arbitrary: c q es)
  case Nil
  show ?case by simp
next
  case (Cons m ms)
  obtain c' q' es' where step: "handle_update (c, q, es) m = (c', q', es')"
    by (rule prod_cases3)
  have c': "c' = (case c of None \<Rightarrow> Some (update_id m) | Some c0 \<Rightarrow> Some (max c0 (update_id m)))"
    using handle_update_cursor [of c q es m] step by simp
  have "fst (foldl handle_update (c, q, es) (m # ms)) = fst (foldl handle_update (c', q', es') ms)"
    by (simp add: step)
  also have "\<dots> = (if ms = [] then c' else Some (Max (set (map update_id ms) \<union> set_option c')))"
    by (rule Cons.IH)
  also have "\<dots> = Some (Max (set (map update_id (m # ms)) \<union> set_option c))"
  proof (cases c)
    case None
    with c' show ?thesis by (auto simp: insert_commute)
  next
    case (Some c0)
    with c' show ?thesis
      by (cases "ms = []") (auto simp: Max_insert max.commute max.left_commute insert_commute)
  qed
  finally show ?case by simp
qed

lemma foldl_handle_update_skips_seen:
  "c0 \<le> c1 \<Longrightarrow>
     foldl handle_update (Some c1, q, es) msgs
       = foldl handle_update (Some c1, q, es) (filter (\<lambda>m. c0 < update_id m) msgs)"
proof (induction msgs arbitrary: c1 q es)
  case Nil
  show ?case by simp
next
  case (Cons m ms)
  show ?case
  proof (cases "c0 < update_id m")
    case False
    with Cons.prems have "update_id m \<le> c1" by simp
    then have "handle_update (Some c1, q, es) m = (Some c1, q, es)" by (rule handle_update_seen)
    with False Cons.IH [OF Cons.prems] show ?thesis by simp
  next
    case True
    obtain c' q' es' where step: "handle_update (Some c1, q, es) m = (c', q', es')"
      by (rule prod_cases3)
    have "c' = Some (max c1 (update_id m))"
      using handle_update_cursor [of "Some c1" q es m] step by simp
    moreover from Cons.prems have "c0 \<le> max c1 (update_id m)" by simp
    ultimately show ?thesis
      using True step Cons.IH [of "max c1 (update_id m)" q' es'] by simp
  qed
qed

text \<open>
  Claim C3. After a batch that holds at least one record, the cursor is the greatest
  identifier among those of the batch and the cursor before it; an empty batch leaves
  the cursor as it was. Records whose identifier is at most the cursor before the batch
  have no effect: the batch without them gives the same cursor, queue and notices, and
  a batch made of such records only changes nothing, whatever their texts are.
\<close>

theorem cursor_is_max_and_seen_ids_ignored:
  "fst (process_batch c q msgs) =
     (if msgs = [] then c else Some (Max (set (map update_id msgs) \<union> set_option c)))
   \<and> process_batch (Some c0) q msgs
       = process_batch (Some c0) q (filter (\<lambda>m. c0 < update_id m) msgs)
   \<and> ((\<forall>m\<in>set msgs. update_id m \<le> c0) \<longrightarrow> process_batch (Some c0) q msgs = (Some c0, q, []))"
proof (intro conjI impI)
  show "fst (process_batch c q msgs) =
     (if msgs = [] then c else Some (Max (set (map update_id msgs) \<union> set_option c)))"
    unfolding process_batch_def by (rule foldl_handle_update_cursor)
  show skip: "process_batch (Some c0) q msgs
       = process_batch (Some c0) q (filter (\<lambda>m. c0 < update_id m) msgs)"
    unfolding process_batch_def by (rule foldl_handle_update_skips_seen) simp
  assume "\<forall>m\<in>set msgs. update_id m \<le> c0"
  then have "filter (\<lambda>m. c0 < update_id m) msgs = []"
    by (auto simp: filter_empty_conv)
  with skip show "process_batch (Some c0) q msgs = (Some c0, q, [])"
    by (simp add: process_batch_def)
qed

theorem cursor_is_max_and_seen_ids_ignored_witness:
  "process_batch (Some 5) []
      [\<lparr>update_id = 4, message_text = Some ''http://h/old.m3u8''\<rparr>,
       \<lparr>update_id = 5, message_text = Some ''x|http://h/seen.m3u8''\<rparr>]
     = (Some 5, [], [])
   \<and> fst (process_batch (Some 5) []
      [\<lparr>update_id = 4, message_text = Some ''http://h/old.m3u8''\<rparr>,
       \<lparr>update_id = 9, message_text = Some ''hello''\<rparr>,
       \<lparr>update_id = 7, message_text = None\<rparr>]) = Some 9"
  using cursor_is_max_and_seen_ids_ignored
     [of "Some 5" "[]" "[\<lparr>update_id = 4, message_text = Some ''http://h/old.m3u8''\<rparr>,
       \<lparr>update_id = 9, message_text = Some ''hello''\<rparr>,
       \<lparr>update_id = 7, message_text = None\<rparr>]" 5]
    cursor_is_max_and_seen_ids_ignored
     [of "Some 5" "[]" "[\<lparr>update_id = 4, message_text = Some ''http://h/old.m3u8''\<rparr>,
       \<lparr>update_id = 5, message_text = Some ''x|http://h/seen.m3u8''\<rparr>]" 5]
  by (simp add: process_batch_def handle_update_def parse_message_text_def strip_def
      is_space_def startswith_def endswith_def)

section \<open>Startup\<close>

text \<open>
  When the startup poll succeeds and its last record carries the greatest identifier,
  the records it returned are ignored whenever they are polled again.
\<close>

lemma history_ignored_after_successful_startup:
  assumes "result \<noteq> []" and "\<forall>m\<in>set result. update_id m \<le> update_id (last result)"
    and "set old \<subseteq> set result"
  shows "startup_cursor (Inr result) = Some (update_id (last result))"
    and "process_batch (startup_cursor (Inr result)) q old
           = (startup_cursor (Inr result), q, [])"
proof -
  from assms(1) show c: "startup_cursor (Inr result) = Some (update_id (last result))"
    by (simp add: startup_cursor_def)
  from assms(2,3) have "\<forall>m\<in>set old. \<not> update_id (last result) < update_id m"
    by (meson leD subsetD)
  then have "filter (\<lambda>m. update_id (last result) < update_id m) old = []"
    by (simp add: filter_empty_conv)
  then show "process_batch (startup_cursor (Inr result)) q old
           = (startup_cursor (Inr result), q, [])"
    unfolding c process_batch_def
    using foldl_handle_update_skips_seen [of "update_id (last result)" "update_id (last result)" q "[]" old]
    by simp
qed

text \<open>
  Claim C9. When the startup poll raises, the cursor is left unset, and the first batch
  polled afterwards is taken in whole: a message that was there before the start and
  holds a valid link is queued. After a startup poll that succeeds, the same batch
  queues nothing.
\<close>

theorem failed_startup_poll_replays_history:
  "startup_cursor (Inl RequestFailed) = None
   \<and> process_batch (startup_cursor (Inl RequestFailed)) []
        [\<lparr>update_id = 7, message_text = Some ''http://h/a.m3u8''\<rparr>]
      = (Some 7, [(''http://h/a.m3u8'', None)], [Notify (LinkAdded ''http://h/a.m3u8'' 1 1)])
   \<and> process_batch
        (startup_cursor (Inr [\<lparr>update_id = 7, message_text = Some ''http://h/a.m3u8''\<rparr>])) []
        [\<lparr>update_id = 7, message_text = Some ''http://h/a.m3u8''\<rparr>]
      = (Some 7, [], [])"
  by (simp add: startup_cursor_def process_batch_def handle_update_def parse_message_text_def
      strip_def is_space_def startswith_def endswith_def)

end
